theory Spec2Isabelle
  imports Main "HOL-Library.Sublist"
begin

section \<open>Go library functions called by klog.go\<close>

text \<open>
  Go strings are byte sequences; they are modelled as \<open>string\<close> (a list of 8-bit
  characters). The functions of this section are the Go standard library's, restricted
  to the arguments klog.go passes (a one-byte separator, base 10, bit size 32).
\<close>

text \<open>\<open>strings.Split(s, sep)\<close> for a one-byte separator: the pieces between the
  separators, one more than there are separators; \<open>[""]\<close> for the empty string.\<close>

fun strings_Split :: "string \<Rightarrow> char \<Rightarrow> string list" where
  "strings_Split [] sep = [[]]"
| "strings_Split (c # cs) sep =
     (if c = sep then [] # strings_Split cs sep
      else (case strings_Split cs sep of
              [] \<Rightarrow> [[c]]
            | piece # pieces \<Rightarrow> (c # piece) # pieces))"

text \<open>\<open>strings.HasSuffix(s, suffix)\<close>.\<close>

definition strings_HasSuffix :: "string \<Rightarrow> string \<Rightarrow> bool" where
  "strings_HasSuffix s suf =
     (length suf \<le> length s \<and> drop (length s - length suf) s = suf)"

text \<open>\<open>strings.LastIndex(s, sep)\<close> for a one-byte separator: the index of its last
  occurrence, or -1.\<close>

definition strings_LastIndex :: "string \<Rightarrow> char \<Rightarrow> int" where
  "strings_LastIndex s sep =
     (if sep \<in> set s then int (length s) - 1 - int (length (takeWhile (\<lambda>c. c \<noteq> sep) (rev s)))
      else - 1)"

text \<open>\<open>strings.ContainsAny(s, chars)\<close> for ASCII \<open>chars\<close>: some byte of \<open>s\<close> is one
  of them.\<close>

definition strings_ContainsAny :: "string \<Rightarrow> string \<Rightarrow> bool" where
  "strings_ContainsAny s chars = list_ex (\<lambda>c. c \<in> set chars) s"

subsection \<open>strconv.ParseInt(s, 10, 32)\<close>

datatype num_error = ErrSyntax | ErrRange

definition is_digit :: "char \<Rightarrow> bool" where
  "is_digit c = (48 \<le> (of_char c :: nat) \<and> (of_char c :: nat) \<le> 57)"

definition digit_val :: "char \<Rightarrow> nat" where
  "digit_val c = of_char c - 48"

text \<open>\<open>cutoff\<close> is \<open>maxUint64/10 + 1\<close>, \<open>maxVal\<close> is \<open>1<<32 - 1\<close>.\<close>

definition cutoff :: nat where
  "cutoff = (2 ^ 64 - 1) div 10 + 1"

definition maxVal :: nat where
  "maxVal = 2 ^ 32 - 1"

text \<open>
  The digit loop of \<open>ParseUint\<close> on a \<open>uint64\<close> accumulator (the wrap-around of
  \<open>n *= 10\<close> and \<open>n + d\<close> is written out). A byte that is not a decimal digit is a
  syntax error (a letter is a digit of value at least 10, refused for base 10). A range
  error returns at once, before the bytes that follow are looked at.
\<close>

fun ParseUint_loop :: "nat \<Rightarrow> string \<Rightarrow> nat \<times> num_error option" where
  "ParseUint_loop n [] = (n, None)"
| "ParseUint_loop n (c # cs) =
     (if \<not> is_digit c then (0, Some ErrSyntax)
      else if cutoff \<le> n then (maxVal, Some ErrRange)
      else (let n10 = (n * 10) mod 2 ^ 64;
                n1 = (n10 + digit_val c) mod 2 ^ 64
            in if n1 < n10 \<or> maxVal < n1 then (maxVal, Some ErrRange)
               else ParseUint_loop n1 cs))"

definition ParseUint :: "string \<Rightarrow> nat \<times> num_error option" where
  "ParseUint s = (if s = [] then (0, Some ErrSyntax) else ParseUint_loop 0 s)"

text \<open>\<open>ParseInt\<close>: an optional sign, then \<open>ParseUint\<close>; a syntax error gives 0, a
  value out of the 32-bit range gives the nearest bound with \<open>ErrRange\<close>.\<close>

definition ParseInt :: "string \<Rightarrow> int \<times> num_error option" where
  "ParseInt s =
     (if s = [] then (0, Some ErrSyntax)
      else (let neg = (hd s = CHR ''-'');
                s1 = (if hd s = CHR ''+'' \<or> hd s = CHR ''-'' then tl s else s);
                (un, err) = ParseUint s1
            in if err = Some ErrSyntax then (0, err)
               else if \<not> neg \<and> 2 ^ 31 \<le> un then (2 ^ 31 - 1, Some ErrRange)
               else if neg \<and> 2 ^ 31 < un then (- (2 ^ 31), Some ErrRange)
               else (if neg then - int un else int un, None)))"

subsection \<open>unicode/utf8.DecodeRuneInString\<close>

definition RuneError :: nat where
  "RuneError = 0xFFFD"

text \<open>
  The first rune of a string and its width in bytes. An empty string gives
  \<open>(RuneError, 0)\<close>, an invalid or truncated encoding \<open>(RuneError, 1)\<close>. The table
  \<open>first\<close> and the \<open>acceptRanges\<close> of the library are written as comparisons on the
  first byte; the masks and shifts as \<open>mod\<close> and multiplication (the bit fields do not
  overlap).
\<close>

definition DecodeRuneInString :: "string \<Rightarrow> nat \<times> nat" where
  "DecodeRuneInString s =
     (case map of_char s of
        [] \<Rightarrow> (RuneError, 0)
      | b0 # bs \<Rightarrow>
          if b0 < (0x80 :: nat) then (b0, 1)
          else if b0 < 0xC2 \<or> 0xF4 < b0 then (RuneError, 1)
          else (let sz = (if b0 < 0xE0 then 2 else if b0 < 0xF0 then 3 else (4 :: nat));
                    lo = (if b0 = 0xE0 then 0xA0 else if b0 = 0xF0 then 0x90 else 0x80);
                    hi = (if b0 = 0xED then 0x9F else if b0 = 0xF4 then 0x8F else 0xBF)
                in if length s < sz then (RuneError, 1)
                   else (let b1 = bs ! 0 in
                     if b1 < lo \<or> hi < b1 then (RuneError, 1)
                     else if sz \<le> 2 then ((b0 mod 32) * 64 + b1 mod 64, 2)
                     else (let b2 = bs ! 1 in
                       if b2 < 0x80 \<or> 0xBF < b2 then (RuneError, 1)
                       else if sz \<le> 3 then
                         ((b0 mod 16) * 4096 + (b1 mod 64) * 64 + b2 mod 64, 3)
                       else (let b3 = bs ! 2 in
                         if b3 < 0x80 \<or> 0xBF < b3 then (RuneError, 1)
                         else ((b0 mod 8) * 262144 + (b1 mod 64) * 4096
                                 + (b2 mod 64) * 64 + b3 mod 64, 4))))))"

subsection \<open>path/filepath.Match (Unix: separator \<open>/\<close>, backslash escapes)\<close>

datatype glob_error = ErrBadPattern

definition backslash :: char where
  "backslash = CHR 0x5C"

text \<open>
  The \<open>Scan\<close> loop of \<open>scanChunk\<close>: the length of the chunk, which ends before the
  first \<open>*\<close> met outside a bracket (\<open>inrange\<close> is set by \<open>[\<close> and cleared by \<open>]\<close>;
  the byte after a backslash is skipped).
\<close>

fun scanChunk_loop :: "bool \<Rightarrow> string \<Rightarrow> nat" where
  "scanChunk_loop inrange [] = 0"
| "scanChunk_loop inrange (c # cs) =
     (if c = backslash then
        (case cs of [] \<Rightarrow> 1 | c' # cs' \<Rightarrow> 2 + scanChunk_loop inrange cs')
      else if c = CHR ''['' then 1 + scanChunk_loop True cs
      else if c = CHR '']'' then 1 + scanChunk_loop False cs
      else if c = CHR ''*'' then (if inrange then 1 + scanChunk_loop inrange cs else 0)
      else 1 + scanChunk_loop inrange cs)"

text \<open>\<open>scanChunk\<close>: whether stars lead the pattern, the chunk after them, the rest.\<close>

definition scanChunk :: "string \<Rightarrow> bool \<times> string \<times> string" where
  "scanChunk pattern =
     (let star = (pattern \<noteq> [] \<and> hd pattern = CHR ''*'');
          p = dropWhile (\<lambda>c. c = CHR ''*'') pattern;
          i = scanChunk_loop False p
      in (star, take i p, drop i p))"

text \<open>\<open>getEsc\<close>: a possibly escaped character of a character class and the chunk
  after it; \<open>None\<close> is \<open>ErrBadPattern\<close>.\<close>

definition getEsc :: "string \<Rightarrow> (nat \<times> string) option" where
  "getEsc chunk =
     (if chunk = [] \<or> hd chunk = CHR ''-'' \<or> hd chunk = CHR '']'' then None
      else (let chunk1 = (if hd chunk = backslash then tl chunk else chunk) in
        if chunk1 = [] then None
        else (let (r, n) = DecodeRuneInString chunk1;
                  nchunk = drop n chunk1
              in if (r = RuneError \<and> n = 1) \<or> nchunk = [] then None
                 else Some (r, nchunk))))"

text \<open>One pass of the range loop of a character class: a range \<open>lo\<close> or \<open>lo-hi\<close>.\<close>

definition getRange :: "string \<Rightarrow> ((nat \<times> nat) \<times> string) option" where
  "getRange chunk =
     (case getEsc chunk of
        None \<Rightarrow> None
      | Some (lo, chunk1) \<Rightarrow>
          if hd chunk1 = CHR ''-'' then
            (case getEsc (tl chunk1) of
               None \<Rightarrow> None
             | Some (hi, chunk2) \<Rightarrow> Some ((lo, hi), chunk2))
          else Some ((lo, lo), chunk1))"

text \<open>The lemmas below are what the termination proofs of the class loop and of
  \<open>matchChunk\<close> need: every step consumes at least one byte of the chunk.\<close>

lemma DecodeRune_width_pos: "s \<noteq> [] \<Longrightarrow> 0 < snd (DecodeRuneInString s)"
  by (cases s) (simp_all add: DecodeRuneInString_def Let_def)

lemma DecodeRune_width_le: "snd (DecodeRuneInString s) \<le> length s"
  by (cases s) (auto simp add: DecodeRuneInString_def Let_def Suc_le_eq not_less)

lemma getEsc_shorter: "getEsc chunk = Some (r, rest) \<Longrightarrow> length rest < length chunk"
  using DecodeRune_width_pos [of chunk] DecodeRune_width_pos [of "tl chunk"]
  by (cases chunk) (auto simp: getEsc_def Let_def split: if_splits prod.splits)

lemma getRange_shorter: "getRange chunk = Some (lh, rest) \<Longrightarrow> length rest < length chunk"
  by (auto simp: getRange_def split: option.splits if_splits prod.splits dest!: getEsc_shorter)

text \<open>
  The range loop of a character class in \<open>matchChunk\<close>: \<open>r\<close> is the rune read from
  the name, \<open>nrange\<close> counts the ranges seen, \<open>mtch\<close> is the flag \<open>match\<close>. The loop
  ends at a \<open>]\<close> that follows at least one range; \<open>None\<close> is \<open>ErrBadPattern\<close>.
\<close>

function matchChunk_ranges :: "nat \<Rightarrow> string \<Rightarrow> nat \<Rightarrow> bool \<Rightarrow> (bool \<times> string) option" where
  "matchChunk_ranges r chunk nrange mtch =
     (if chunk \<noteq> [] \<and> hd chunk = CHR '']'' \<and> 0 < nrange then Some (mtch, tl chunk)
      else (case getRange chunk of
              None \<Rightarrow> None
            | Some ((lo, hi), chunk1) \<Rightarrow>
                matchChunk_ranges r chunk1 (nrange + 1) (mtch \<or> (lo \<le> r \<and> r \<le> hi))))"
  by pat_completeness auto
termination
  by (relation "measure (\<lambda>(r, chunk, nrange, mtch). length chunk)")
     (auto dest: getRange_shorter)

declare matchChunk_ranges.simps [simp del]

lemma matchChunk_ranges_shorter:
  "matchChunk_ranges r chunk nrange mtch = Some (b, rest) \<Longrightarrow> length rest < length chunk"
proof (induction r chunk nrange mtch rule: matchChunk_ranges.induct)
  case (1 r chunk nrange mtch)
  show ?case
  proof (cases "chunk \<noteq> [] \<and> hd chunk = CHR '']'' \<and> 0 < nrange")
    case True
    with "1.prems" have "rest = tl chunk" by (simp add: matchChunk_ranges.simps [of r chunk])
    with True show ?thesis by (cases chunk) auto
  next
    case False
    with "1.prems" obtain lo hi chunk1 where g: "getRange chunk = Some ((lo, hi), chunk1)"
      and m: "matchChunk_ranges r chunk1 (nrange + 1) (mtch \<or> (lo \<le> r \<and> r \<le> hi)) = Some (b, rest)"
      by (auto split: option.splits simp: matchChunk_ranges.simps [of r chunk])
    from "1.IH" [OF False g refl refl m] getRange_shorter [OF g] show ?thesis by simp
  qed
qed


text \<open>
  \<open>matchChunk\<close>: the result is \<open>(rest, ok, err)\<close> as in the library. After the match
  has failed the loop still walks the chunk to check that it is well formed, without
  reading the name. In a chunk \<open>*\<close> is an ordinary byte.
\<close>

function matchChunk_loop :: "bool \<Rightarrow> string \<Rightarrow> string \<Rightarrow> string \<times> bool \<times> glob_error option" where
  "matchChunk_loop failed [] s = (if failed then ([], False, None) else (s, True, None))"
| "matchChunk_loop failed0 (c # chunk) s =
     (let failed = (failed0 \<or> s = []) in
      if c = CHR ''['' then
        (let r = (if \<not> failed then fst (DecodeRuneInString s) else 0);
             s1 = (if \<not> failed then drop (snd (DecodeRuneInString s)) s else s);
             negated = (chunk \<noteq> [] \<and> hd chunk = CHR ''^'');
             chunk1 = (if negated then tl chunk else chunk)
         in (case matchChunk_ranges r chunk1 0 False of
               None \<Rightarrow> ([], False, Some ErrBadPattern)
             | Some (mtch, chunk2) \<Rightarrow>
                 matchChunk_loop (failed \<or> mtch = negated) chunk2 s1))
      else if c = CHR ''?'' then
        (if \<not> failed then
           matchChunk_loop (hd s = CHR ''/'') chunk (drop (snd (DecodeRuneInString s)) s)
         else matchChunk_loop failed chunk s)
      else if c = backslash then
        (case chunk of
           [] \<Rightarrow> ([], False, Some ErrBadPattern)
         | c1 # chunk1 \<Rightarrow>
             (if \<not> failed then matchChunk_loop (c1 \<noteq> hd s) chunk1 (tl s)
              else matchChunk_loop failed chunk1 s))
      else (if \<not> failed then matchChunk_loop (c \<noteq> hd s) chunk (tl s)
            else matchChunk_loop failed chunk s))"
  by pat_completeness auto
termination
  by (relation "measure (\<lambda>(failed, chunk, s). length chunk)")
     (auto dest!: matchChunk_ranges_shorter split: if_splits)

definition matchChunk :: "string \<Rightarrow> string \<Rightarrow> string \<times> bool \<times> glob_error option" where
  "matchChunk chunk s = matchChunk_loop False chunk s"

text \<open>
  The inner loop of \<open>Match\<close> after a star: the chunk is tried at \<open>name[i+1:]\<close> for
  \<open>i = 0, 1, ...\<close> while \<open>name[i]\<close> is not the separator. \<open>final\<close> says that the
  pattern is used up, when a match must also use up the name. \<open>Inl\<close> is the error
  return, \<open>Inr (Some t)\<close> is \<open>continue Pattern\<close> with \<open>name = t\<close>, \<open>Inr None\<close> is the
  end of the loop.
\<close>

fun Match_skip :: "string \<Rightarrow> bool \<Rightarrow> string \<Rightarrow> glob_error + string option" where
  "Match_skip chunk final [] = Inr None"
| "Match_skip chunk final (c # name1) =
     (if c = CHR ''/'' then Inr None
      else (case matchChunk chunk name1 of
              (t, ok, err) \<Rightarrow>
                if ok then (if final \<and> t \<noteq> [] then Match_skip chunk final name1
                            else Inr (Some t))
                else (case err of
                        Some e \<Rightarrow> Inl e
                      | None \<Rightarrow> Match_skip chunk final name1)))"

lemma scanChunk_loop_pos: "p \<noteq> [] \<Longrightarrow> hd p \<noteq> CHR ''*'' \<Longrightarrow> 0 < scanChunk_loop inrange p"
  by (cases p) (auto split: list.splits)

lemma scanChunk_shorter:
  assumes "pattern \<noteq> []" and "(star, chunk, rest) = scanChunk pattern"
    and "\<not> star \<or> chunk \<noteq> []"
  shows "length rest < length pattern"
proof -
  let ?p = "dropWhile (\<lambda>c. c = CHR ''*'') pattern"
  have r: "rest = drop (scanChunk_loop False ?p) ?p"
    and c: "chunk = take (scanChunk_loop False ?p) ?p"
    and s: "star = (hd pattern = CHR ''*'')"
    using assms(1,2) by (auto simp: scanChunk_def Let_def)
  show ?thesis
  proof (cases star)
    case True
    then have "length ?p < length pattern"
      using assms(1) s by (cases pattern) (auto intro: le_imp_less_Suc length_dropWhile_le)
    then show ?thesis using r by simp
  next
    case False
    then have "?p = pattern" using s assms(1) by (cases pattern) auto
    moreover have "0 < scanChunk_loop False pattern"
      using scanChunk_loop_pos [OF assms(1)] False s by simp
    ultimately show ?thesis using r assms(1) by simp
  qed
qed

text \<open>\<open>Match(pattern, name)\<close>: the result is \<open>(matched, err)\<close>.\<close>

function Match :: "string \<Rightarrow> string \<Rightarrow> bool \<times> glob_error option" where
  "Match pattern name =
     (if pattern = [] then (name = [], None)
      else (case scanChunk pattern of
        (star, chunk, rest) \<Rightarrow>
          if star \<and> chunk = [] then (CHR ''/'' \<notin> set name, None)
          else (case matchChunk chunk name of
            (t, ok, err) \<Rightarrow>
              if ok \<and> (t = [] \<or> rest \<noteq> []) then Match rest t
              else if err \<noteq> None then (False, err)
              else if star then
                (case Match_skip chunk (rest = []) name of
                   Inl e \<Rightarrow> (False, Some e)
                 | Inr (Some t1) \<Rightarrow> Match rest t1
                 | Inr None \<Rightarrow> (False, None))
              else (False, None))))"
  by pat_completeness auto
termination
  by (relation "measure (\<lambda>(pattern, name). length pattern)")
     (auto intro: scanChunk_shorter)

declare Match.simps [simp del]

section \<open>klog.go: the vmodule filter and its call-site cache\<close>

text \<open>
  \<open>Level\<close> is \<open>klogv2.Level\<close>, an \<open>int32\<close>; a program counter is a \<open>uintptr\<close>. An
  \<open>error\<close> of the wrapped flag value is kept as its message.
\<close>

type_synonym Level = int
type_synonym uintptr = nat
type_synonym error = string

text \<open>The conversion \<open>Level(v)\<close> of an \<open>int64\<close> to \<open>int32\<close>, which keeps the low 32
  bits.\<close>

definition Level_of :: "int \<Rightarrow> Level" where
  "Level_of v = (v + 2 ^ 31) mod 2 ^ 32 - 2 ^ 31"

record modulePat =
  pattern :: string
  literal :: bool
  level :: Level

text \<open>\<open>modulePat.match\<close>; the error of \<open>filepath.Match\<close> is dropped.\<close>

definition match :: "modulePat \<Rightarrow> string \<Rightarrow> bool" where
  "match m file = (if literal m then file = pattern m else fst (Match (pattern m) file))"

definition isLiteral :: "string \<Rightarrow> bool" where
  "isLiteral pat =
     (\<not> strings_ContainsAny pat [backslash, CHR ''*'', CHR ''?'', CHR ''['', CHR '']''])"

text \<open>
  The variable \<open>global\<close>. \<open>vModuleCache\<close> is a Go map: \<open>None\<close> is the nil map the
  variable holds until \<open>Set\<close> makes one (reading a nil map finds nothing, storing into it
  panics). The mutex is held for the whole of each access, so every operation below is
  one atomic step on this record.
\<close>

record global =
  vModuleFilter :: "modulePat list"
  vModuleCache :: "(uintptr \<rightharpoonup> Level) option"

definition global_init :: global where
  "global_init = \<lparr>vModuleFilter = [], vModuleCache = None\<rparr>"

datatype panic = IndexOutOfRange | NilMapAssignment | NilDereference

text \<open>
  The loop of \<open>vmoduleValue.Set\<close> over the pieces of the flag value; \<open>filt\<close> is the
  slice \<open>filter\<close> built so far. \<open>patLev[1]\<close> panics when the piece has no \<open>=\<close>.
\<close>

fun Set_loop :: "string list \<Rightarrow> modulePat list \<Rightarrow> panic + modulePat list" where
  "Set_loop [] filt = Inr filt"
| "Set_loop (pat # pats) filt =
     (if length pat = 0 then Set_loop pats filt
      else (let patLev = strings_Split pat (CHR ''='') in
        if length patLev \<le> 1 then Inl IndexOutOfRange
        else (let pat0 = patLev ! 0;
                  v = fst (ParseInt (patLev ! 1))
              in if v = 0 then Set_loop pats filt
                 else Set_loop pats
                        (filt @ [\<lparr>pattern = pat0, literal = isLiteral pat0,
                                  level = Level_of v\<rparr>]))))"

text \<open>
  \<open>vmoduleValue.Set\<close>. \<open>inner\<close> is \<open>m.inner.Set\<close>, the wrapped flag value's verdict on
  the string (\<open>None\<close> is \<open>nil\<close>). The result is the panic or the returned error, and the
  state of \<open>global\<close> afterwards.
\<close>

definition vmoduleValue_Set ::
    "(string \<Rightarrow> error option) \<Rightarrow> string \<Rightarrow> global \<Rightarrow> (panic + error option) \<times> global" where
  "vmoduleValue_Set inner val g =
     (case inner val of
        Some err \<Rightarrow> (Inr (Some err), g)
      | None \<Rightarrow>
          (case Set_loop (strings_Split val (CHR '','')) [] of
             Inl p \<Rightarrow> (Inl p, g)
           | Inr filt \<Rightarrow>
               (Inr None, g\<lparr>vModuleFilter := filt, vModuleCache := Some Map.empty\<rparr>)))"

text \<open>The file name \<open>vmoduleGet\<close> matches: \<open>/a/b/c/d.go\<close> becomes \<open>d\<close>.\<close>

definition vmoduleGet_file :: "string \<Rightarrow> string" where
  "vmoduleGet_file file0 =
     (let file1 = (if strings_HasSuffix file0 ''.go'' then take (length file0 - 3) file0
                   else file0);
          slash = strings_LastIndex file1 (CHR ''/'')
      in if 0 \<le> slash then drop (nat (slash + 1)) file1 else file1)"

text \<open>The loop of \<open>vmoduleGet\<close> over the filter: the level of the first rule that
  matches, \<open>None\<close> when the loop ends without a match.\<close>

fun vmoduleGet_loop :: "modulePat list \<Rightarrow> string \<Rightarrow> Level option" where
  "vmoduleGet_loop [] file = None"
| "vmoduleGet_loop (m # ms) file =
     (if match m file then Some (level m) else vmoduleGet_loop ms file)"

text \<open>The assignment \<open>global.vModuleCache[pc] = v\<close> followed by \<open>return v\<close>.\<close>

definition vmoduleGet_store :: "uintptr \<Rightarrow> Level \<Rightarrow> global \<Rightarrow> (panic + Level) \<times> global" where
  "vmoduleGet_store pc v g =
     (case vModuleCache g of
        None \<Rightarrow> (Inl NilMapAssignment, g)
      | Some cache \<Rightarrow> (Inr v, g\<lparr>vModuleCache := Some (cache(pc \<mapsto> v))\<rparr>))"

text \<open>
  \<open>vmoduleGet\<close>. \<open>fileLine pc\<close> is the file that \<open>runtime.FuncForPC(pc).FileLine(pc)\<close>
  gives; \<open>None\<close> when \<open>FuncForPC\<close> finds no function and returns nil, whose \<open>FileLine\<close>
  dereferences it.
\<close>

definition vmoduleGet ::
    "(uintptr \<Rightarrow> string option) \<Rightarrow> uintptr \<Rightarrow> global \<Rightarrow> (panic + Level) \<times> global" where
  "vmoduleGet fileLine pc g =
     (case (case vModuleCache g of None \<Rightarrow> None | Some cache \<Rightarrow> cache pc) of
        Some v \<Rightarrow> (Inr v, g)
      | None \<Rightarrow>
          (case fileLine pc of
             None \<Rightarrow> (Inl NilDereference, g)
           | Some file0 \<Rightarrow>
               (case vmoduleGet_loop (vModuleFilter g) (vmoduleGet_file file0) of
                  Some v \<Rightarrow> vmoduleGet_store pc v g
                | None \<Rightarrow> vmoduleGet_store pc 0 g)))"


section \<open>Collaborators used in the examples\<close>

text \<open>A wrapped flag value that accepts every string, and one that refuses every
  string.\<close>

definition inner_accepts :: "string \<Rightarrow> error option" where
  "inner_accepts val = None"

definition inner_rejects :: "string \<Rightarrow> error option" where
  "inner_rejects val = Some ''syntax error: expect comma-separated list of filename=N''"

text \<open>A symbol table in which every program counter lies in \<open>/go/src/pkg/abc.go\<close>.\<close>

definition fileLine_abc :: "uintptr \<Rightarrow> string option" where
  "fileLine_abc pc = Some ''/go/src/pkg/abc.go''"


section \<open>The wrapped flag value\<close>

text \<open>
  \<open>InitFlags\<close> is the only place that builds a \<open>vmoduleValue\<close>, and the flag value
  it wraps is the \<open>vmodule\<close> flag that \<open>klogv2.InitFlags\<close> has registered
  (\<open>k8s.io/klog/v2\<close>, \<open>moduleSpec.Set\<close>). That library is a dependency, not part of
  this repository; the definitions below follow its source. Its \<open>Set\<close> parses the
  string with the same loop as the one here, but checks each piece: a piece must split
  on \<open>=\<close> into exactly two non-empty elements (\<open>errVmoduleSyntax\<close> otherwise), the
  level must parse without error (the same message otherwise) and must not be negative.
  Only the error it returns matters here; the state it keeps is its own.
\<close>

definition errVmoduleSyntax :: error where
  "errVmoduleSyntax = ''syntax error: expect comma-separated list of filename=N''"

definition errNegativeLevel :: error where
  "errNegativeLevel = ''negative value for vmodule level''"

fun klogv2_Set_loop :: "string list \<Rightarrow> error option" where
  "klogv2_Set_loop [] = None"
| "klogv2_Set_loop (pat # pats) =
     (if length pat = 0 then klogv2_Set_loop pats
      else (let patLev = strings_Split pat (CHR ''='') in
        if length patLev = 2 then
          (if length (patLev ! 0) = 0 \<or> length (patLev ! 1) = 0 then Some errVmoduleSyntax
           else (case ParseInt (patLev ! 1) of
                   (v, Some err) \<Rightarrow> Some errVmoduleSyntax
                 | (v, None) \<Rightarrow>
                     if v < 0 then Some errNegativeLevel
                     else klogv2_Set_loop pats))
        else Some errVmoduleSyntax))"

definition inner_klog :: "string \<Rightarrow> error option" where
  "inner_klog val = klogv2_Set_loop (strings_Split val (CHR '',''))"

section \<open>States of the filter and the cache\<close>

text \<open>The level \<open>vmoduleGet\<close> computes on a cache miss for a call site in \<open>file0\<close>:
  that of the first rule matching the trimmed file name, 0 when no rule matches.\<close>

definition resolved_level :: "modulePat list \<Rightarrow> string \<Rightarrow> Level" where
  "resolved_level filt file0 =
     (case vmoduleGet_loop filt (vmoduleGet_file file0) of Some v \<Rightarrow> v | None \<Rightarrow> 0)"

text \<open>The states of \<open>global\<close> a program can reach: from the initial one by calls of
  \<open>Set\<close> (with any wrapped flag value and string) and of \<open>vmoduleGet\<close>.\<close>

inductive reachable :: "(uintptr \<Rightarrow> string option) \<Rightarrow> global \<Rightarrow> bool"
  for fileLine :: "uintptr \<Rightarrow> string option" where
  reachable_init: "reachable fileLine global_init"
| reachable_Set: "reachable fileLine g \<Longrightarrow> reachable fileLine (snd (vmoduleValue_Set inner val g))"
| reachable_Get: "reachable fileLine g \<Longrightarrow> reachable fileLine (snd (vmoduleGet fileLine pc g))"

text \<open>The invariant: every cache entry holds the level the current filter gives its
  call site, and a nil cache goes with an empty filter.\<close>

definition cache_consistent :: "(uintptr \<Rightarrow> string option) \<Rightarrow> global \<Rightarrow> bool" where
  "cache_consistent fileLine g =
     ((\<forall>cache pc v. vModuleCache g = Some cache \<and> cache pc = Some v \<longrightarrow>
         (\<exists>file0. fileLine pc = Some file0 \<and> v = resolved_level (vModuleFilter g) file0))
      \<and> (vModuleCache g = None \<longrightarrow> vModuleFilter g = []))"


section \<open>Flag values as the documentation writes them\<close>

text \<open>\<open>strings.Join\<close>: the flag value made of pieces with a separator between them.\<close>

fun strings_Join :: "string list \<Rightarrow> char \<Rightarrow> string" where
  "strings_Join [] sep = []"
| "strings_Join [s] sep = s"
| "strings_Join (s # t # ts) sep = s @ sep # strings_Join (t # ts) sep"

text \<open>The number a string of decimal digits denotes, and the decimal numeral of a number
  (what \<open>strconv.Itoa\<close> prints for it).\<close>

definition decimal_value :: "string \<Rightarrow> nat" where
  "decimal_value ds = foldl (\<lambda>n c. n * 10 + digit_val c) 0 ds"



text \<open>
  A level text that is a decimal integer of 32 bits: an optional sign, then one or more
  decimal digits, denoting a number from \<open>-2^31\<close> to \<open>2^31 - 1\<close>.
\<close>

definition int32_text :: "string \<Rightarrow> bool" where
  "int32_text t =
     (t \<noteq> [] \<and>
      (let neg = (hd t = CHR ''-'');
           body = (if hd t = CHR ''+'' \<or> hd t = CHR ''-'' then tl t else t)
       in body \<noteq> [] \<and> list_all is_digit body
          \<and> (if neg then decimal_value body \<le> 2 ^ 31 else decimal_value body < 2 ^ 31)))"

section \<open>Properties of the parser in Set\<close>

lemma strings_Split_not_Nil: "strings_Split s sep \<noteq> []"
  by (induction s) (auto split: list.splits)

lemma strings_Split_length:
  "length (strings_Split s sep) = Suc (length (filter (\<lambda>c. c = sep) s))"
  by (induction s) (auto split: list.splits simp: strings_Split_not_Nil)

lemma strings_Split_two: "sep \<in> set s \<Longrightarrow> \<not> length (strings_Split s sep) \<le> 1"
  by (simp add: strings_Split_length filter_empty_conv)

lemma Set_loop_no_panic:
  "\<forall>seg \<in> set segs. seg \<noteq> [] \<longrightarrow> CHR ''='' \<in> set seg \<Longrightarrow> \<exists>out. Set_loop segs filt = Inr out"
proof (induction segs arbitrary: filt)
  case Nil
  then show ?case by simp
next
  case (Cons seg segs)
  then show ?case using strings_Split_two [of "CHR ''=''" seg] by (auto simp add: Let_def)
qed

lemma strings_Split_free: "sep \<notin> set s \<Longrightarrow> strings_Split s sep = [s]"
  by (induction s) auto

lemma strings_Split_append:
  "sep \<notin> set a \<Longrightarrow> strings_Split (a @ sep # b) sep = a # strings_Split b sep"
  by (induction a) auto

lemma strings_Split_hd: "hd (strings_Split s sep) = takeWhile (\<lambda>c. c \<noteq> sep) s"
  by (induction s) (auto split: list.splits simp: strings_Split_not_Nil)

lemma strings_Split_Join:
  "segs \<noteq> [] \<Longrightarrow> \<forall>s \<in> set segs. sep \<notin> set s \<Longrightarrow> strings_Split (strings_Join segs sep) sep = segs"
proof (induction segs sep rule: strings_Join.induct)
  case (1 sep)
  then show ?case by simp
next
  case (2 s sep)
  then show ?case by (simp add: strings_Split_free)
next
  case (3 s t ts sep)
  then show ?case by (simp add: strings_Split_append)
qed

subsection \<open>ParseInt\<close>



lemma ParseInt_range: "- (2 ^ 31) \<le> fst (ParseInt s) \<and> fst (ParseInt s) \<le> 2 ^ 31 - 1"
  by (auto simp: ParseInt_def Let_def split: prod.splits)

lemma Level_of_ParseInt: "Level_of (fst (ParseInt s)) = fst (ParseInt s)"
proof -
  from ParseInt_range [of s] have "0 \<le> fst (ParseInt s) + 2 ^ 31" "fst (ParseInt s) + 2 ^ 31 < 2 ^ 32"
    by auto
  then have "(fst (ParseInt s) + 2 ^ 31) mod 2 ^ 32 = fst (ParseInt s) + 2 ^ 31"
    by (rule mod_pos_pos_trivial)
  then show ?thesis by (simp add: Level_of_def)
qed

lemma of_char_digit: "(k::nat) < 10 \<Longrightarrow> of_char (char_of (48 + k) :: char) = 48 + k"
  by simp










lemma ParseInt_zero: "ParseInt ''0'' = (0, None)"
  by (simp add: ParseInt_def ParseUint_def is_digit_def digit_val_def cutoff_def maxVal_def Let_def)


subsection \<open>The loop of Set\<close>

lemma Set_loop_append:
  "Set_loop (xs @ ys) filt = (case Set_loop xs filt of Inl p \<Rightarrow> Inl p | Inr f \<Rightarrow> Set_loop ys f)"
  by (induction xs arbitrary: filt) (simp_all add: Let_def)

lemma Set_loop_segment:
  assumes "CHR ''='' \<notin> set p"
  shows "Set_loop ((p @ CHR ''='' # t) # segs) filt =
           (if fst (ParseInt (takeWhile (\<lambda>c. c \<noteq> CHR ''='') t)) = 0 then Set_loop segs filt
            else Set_loop segs
                   (filt @ [\<lparr>pattern = p, literal = isLiteral p,
                             level = fst (ParseInt (takeWhile (\<lambda>c. c \<noteq> CHR ''='') t))\<rparr>]))"
proof -
  let ?pl = "strings_Split (p @ CHR ''='' # t) (CHR ''='')"
  have pl: "?pl = p # strings_Split t (CHR ''='')"
    using assms by (rule strings_Split_append)
  obtain x xs where x: "strings_Split t (CHR ''='') = x # xs"
    using strings_Split_not_Nil [of t "CHR ''=''"] by (cases "strings_Split t (CHR ''='')") auto
  have x1: "x = takeWhile (\<lambda>c. c \<noteq> CHR ''='') t"
    using strings_Split_hd [of t "CHR ''=''"] x by simp
  show ?thesis
    by (simp add: pl x Let_def Level_of_ParseInt) (simp add: x1)
qed

lemma Set_loop_empty: "Set_loop ([] # segs) filt = Set_loop segs filt"
  by simp

lemma Set_loop_Split_Join:
  assumes "\<forall>s \<in> set segs. CHR '','' \<notin> set s"
  shows "Set_loop (strings_Split (strings_Join segs (CHR '','')) (CHR '','')) filt = Set_loop segs filt"
proof (cases "segs = []")
  case True
  then show ?thesis by simp
next
  case False
  with assms show ?thesis by (simp add: strings_Split_Join)
qed

lemma zero_segment_skipped:
  assumes "CHR ''='' \<notin> set p"
  shows "Set_loop ((p @ ''=0'') # segs) filt = Set_loop segs filt"
  using Set_loop_segment [OF assms(1), of "''0''" segs filt] ParseInt_zero by simp


section \<open>The cache invariant\<close>

lemma cache_consistent_init: "cache_consistent fileLine global_init"
  by (simp add: cache_consistent_def global_init_def)

lemma cache_consistent_Set:
  "cache_consistent fileLine g \<Longrightarrow> cache_consistent fileLine (snd (vmoduleValue_Set inner val g))"
  by (auto simp: cache_consistent_def vmoduleValue_Set_def split: option.splits sum.splits)

lemma vmoduleGet_filter [simp]:
  "vModuleFilter (snd (vmoduleGet fileLine pc g)) = vModuleFilter g"
  by (simp add: vmoduleGet_def vmoduleGet_store_def split: option.splits)

lemma vmoduleGet_miss:
  assumes "vModuleCache g = Some cache" and "cache pc = None" and "fileLine pc = Some file0"
  shows "vmoduleGet fileLine pc g =
           (Inr (resolved_level (vModuleFilter g) file0),
            g\<lparr>vModuleCache := Some (cache(pc \<mapsto> resolved_level (vModuleFilter g) file0))\<rparr>)"
  using assms by (simp add: vmoduleGet_def vmoduleGet_store_def resolved_level_def split: option.splits)

lemma vmoduleGet_hit:
  assumes "vModuleCache g = Some cache" and "cache pc = Some v"
  shows "vmoduleGet fileLine pc g = (Inr v, g)"
  using assms by (simp add: vmoduleGet_def)

lemma cache_consistent_Get:
  assumes "cache_consistent fileLine g"
  shows "cache_consistent fileLine (snd (vmoduleGet fileLine pc g))"
proof (cases "vModuleCache g")
  case None
  then have "snd (vmoduleGet fileLine pc g) = g"
    by (simp add: vmoduleGet_def vmoduleGet_store_def split: option.splits)
  with assms show ?thesis by simp
next
  case (Some cache)
  show ?thesis
  proof (cases "cache pc")
    case (Some v)
    with \<open>vModuleCache g = Some cache\<close> assms show ?thesis by (simp add: vmoduleGet_hit)
  next
    case None
    show ?thesis
    proof (cases "fileLine pc")
      case (Some file0)
      from vmoduleGet_miss [of g cache pc fileLine file0] \<open>vModuleCache g = Some cache\<close> None Some
      have "vmoduleGet fileLine pc g =
              (Inr (resolved_level (vModuleFilter g) file0),
               g\<lparr>vModuleCache := Some (cache(pc \<mapsto> resolved_level (vModuleFilter g) file0))\<rparr>)"
        by simp
      with assms \<open>vModuleCache g = Some cache\<close> Some show ?thesis
        by (auto simp: cache_consistent_def)
    next
      case nofile: None
      then have "snd (vmoduleGet fileLine pc g) = g"
        using None \<open>vModuleCache g = Some cache\<close> by (simp add: vmoduleGet_def)
      with assms show ?thesis by simp
    qed
  qed
qed

lemma reachable_consistent: "reachable fileLine g \<Longrightarrow> cache_consistent fileLine g"
  by (induction rule: reachable.induct)
     (simp_all add: cache_consistent_init cache_consistent_Set cache_consistent_Get)

text \<open>In a consistent state with a cache, vmoduleGet returns the level the filter gives.\<close>

lemma vmoduleGet_consistent:
  assumes "cache_consistent fileLine g" and "vModuleCache g \<noteq> None" and "fileLine pc = Some file0"
  shows "fst (vmoduleGet fileLine pc g) = Inr (resolved_level (vModuleFilter g) file0)"
proof -
  from assms(2) obtain cache where c: "vModuleCache g = Some cache" by auto
  show ?thesis
  proof (cases "cache pc")
    case None
    from vmoduleGet_miss [of g cache pc fileLine file0] c None assms(3) show ?thesis by simp
  next
    case (Some v)
    with assms(1,3) c have "v = resolved_level (vModuleFilter g) file0"
      unfolding cache_consistent_def by fastforce
    with vmoduleGet_hit [OF c Some] show ?thesis by simp
  qed
qed


lemma Set_success:
  assumes "vmoduleValue_Set inner val g = (Inr None, g2)"
  shows "\<exists>filt. Set_loop (strings_Split val (CHR '','')) [] = Inr filt
           \<and> g2 = g\<lparr>vModuleFilter := filt, vModuleCache := Some Map.empty\<rparr>"
  using assms by (auto simp: vmoduleValue_Set_def split: option.splits sum.splits)
lemma vmoduleGet_loop_first:
  assumes "i < length filt" and "match (filt ! i) file"
    and "\<forall>j<i. \<not> match (filt ! j) file"
  shows "vmoduleGet_loop filt file = Some (level (filt ! i))"
  using assms
proof (induction filt arbitrary: i)
  case Nil
  then show ?case by simp
next
  case (Cons m ms)
  show ?case
  proof (cases i)
    case 0
    with Cons.prems show ?thesis by simp
  next
    case (Suc k)
    with Cons.prems have "\<not> match m file" by auto
    moreover have "vmoduleGet_loop ms file = Some (level (ms ! k))"
      using Cons.prems Suc by (intro Cons.IH) auto
    ultimately show ?thesis using Suc by simp
  qed
qed

lemma reachable_cache:
  assumes "reachable fileLine g" and "vModuleFilter g \<noteq> []"
  shows "vModuleCache g \<noteq> None"
  using reachable_consistent [OF assms(1)] assms(2) by (auto simp: cache_consistent_def)





section \<open>The file name of a call site\<close>

lemma strings_LastIndex_last:
  assumes "sep \<notin> set b"
  shows "strings_LastIndex (d @ sep # b) sep = int (length d)"
proof -
  have "takeWhile (\<lambda>c. c \<noteq> sep) (rev b @ sep # rev d) = rev b"
    using assms by (subst takeWhile_append2) auto
  then show ?thesis by (simp add: strings_LastIndex_def)
qed

lemma strings_LastIndex_none: "sep \<notin> set b \<Longrightarrow> strings_LastIndex b sep = - 1"
  by (simp add: strings_LastIndex_def)

lemma nat_int_Suc: "nat (int n + 1) = Suc n"
  by arith

lemma HasSuffix_suffix: "strings_HasSuffix s suf = suffix suf s"
proof
  assume "strings_HasSuffix s suf"
  then have "s = take (length s - length suf) s @ suf"
    by (metis append_take_drop_id strings_HasSuffix_def)
  then show "suffix suf s" by (metis suffixI)
next
  assume "suffix suf s"
  then obtain zs where "s = zs @ suf" by (auto simp: suffix_def)
  then show "strings_HasSuffix s suf" by (simp add: strings_HasSuffix_def)
qed

lemma HasSuffix_append: "strings_HasSuffix (a @ s) s"
  by (simp add: HasSuffix_suffix suffixI)

lemma HasSuffix_go_dir:
  assumes "CHR ''/'' \<notin> set b"
  shows "strings_HasSuffix (d @ CHR ''/'' # b) ''.go'' = strings_HasSuffix b ''.go''"
proof -
  have "\<not> (\<exists>xs'. ''.go'' = xs' @ CHR ''/'' # b)"
  proof
    assume "\<exists>xs'. ''.go'' = xs' @ CHR ''/'' # b"
    then obtain xs' where "''.go'' = xs' @ CHR ''/'' # b" by blast
    then have "CHR ''/'' \<in> set ''.go''" by (metis in_set_conv_decomp)
    then show False by simp
  qed
  moreover have "''.go'' \<noteq> CHR ''/'' # b" by simp
  ultimately show ?thesis
    by (simp add: HasSuffix_suffix suffix_append suffix_Cons)
qed

lemma vmoduleGet_file_strip:
  assumes "CHR ''/'' \<notin> set b"
  shows "vmoduleGet_file (d @ ''/'' @ b @ ''.go'') = b"
    and "vmoduleGet_file (b @ ''.go'') = b"
    and "\<not> strings_HasSuffix b ''.go'' \<Longrightarrow> vmoduleGet_file (d @ ''/'' @ b) = b"
    and "\<not> strings_HasSuffix b ''.go'' \<Longrightarrow> vmoduleGet_file b = b"
proof -
  have s1: "strings_HasSuffix (d @ ''/'' @ b @ ''.go'') ''.go''"
    using HasSuffix_append [of "d @ ''/'' @ b" "''.go''"] by simp
  have t1: "take (length (d @ ''/'' @ b @ ''.go'') - 3) (d @ ''/'' @ b @ ''.go'') = d @ CHR ''/'' # b"
    by simp
  have l1: "strings_LastIndex (d @ CHR ''/'' # b) (CHR ''/'') = int (length d)"
    using assms by (rule strings_LastIndex_last)
  have "vmoduleGet_file (d @ ''/'' @ b @ ''.go'')
          = drop (nat (int (length d) + 1)) (d @ CHR ''/'' # b)"
    by (simp only: vmoduleGet_file_def s1 if_True t1 Let_def l1) simp
  then show "vmoduleGet_file (d @ ''/'' @ b @ ''.go'') = b"
    by (simp add: nat_int_Suc)
  have s2: "strings_HasSuffix (b @ ''.go'') ''.go''" by (rule HasSuffix_append)
  show "vmoduleGet_file (b @ ''.go'') = b"
    unfolding vmoduleGet_file_def using s2 assms
    by (simp add: strings_LastIndex_none)
  show "vmoduleGet_file (d @ ''/'' @ b) = b" if "\<not> strings_HasSuffix b ''.go''"
    using that assms HasSuffix_go_dir [OF assms, of d]
    by (simp add: vmoduleGet_file_def strings_LastIndex_last nat_int_Suc)
  show "vmoduleGet_file b = b" if "\<not> strings_HasSuffix b ''.go''"
    using that assms by (simp add: vmoduleGet_file_def strings_LastIndex_none)
qed

section \<open>Evaluations used in the examples\<close>

lemmas parse_defs = ParseInt_def ParseUint_def is_digit_def digit_val_def cutoff_def maxVal_def Let_def

lemma Set_loop_sample:
  "Set_loop (strings_Split ''a*=1,abc=5'' (CHR '','')) [] =
     Inr [\<lparr>pattern = ''a*'', literal = False, level = 1\<rparr>,
          \<lparr>pattern = ''abc'', literal = True, level = 5\<rparr>]"
  by (simp add: parse_defs isLiteral_def strings_ContainsAny_def Level_of_def backslash_def)

lemma Set_loop_sample2:
  "Set_loop (strings_Split ''abc=5'' (CHR '','')) [] =
     Inr [\<lparr>pattern = ''abc'', literal = True, level = 5\<rparr>]"
  by (simp add: parse_defs isLiteral_def strings_ContainsAny_def Level_of_def backslash_def)

lemma vmoduleGet_file_sample: "vmoduleGet_file ''/go/src/pkg/abc.go'' = ''abc''"
  by (simp add: vmoduleGet_file_def strings_HasSuffix_def strings_LastIndex_def)

lemma Match_sample: "fst (Match ''a*'' ''abc'')"
  by code_simp



section \<open>Set around the vmodule flag of klog/v2\<close>

lemma strings_Split_length2:
  assumes "length (strings_Split s sep) = 2"
  shows "sep \<in> set s"
proof (rule ccontr)
  assume "sep \<notin> set s"
  then have "strings_Split s sep = [s]" by (rule strings_Split_free)
  with assms show False by simp
qed

lemma klogv2_accepts_separator:
  "klogv2_Set_loop segs = None \<Longrightarrow> \<forall>seg \<in> set segs. seg \<noteq> [] \<longrightarrow> CHR ''='' \<in> set seg"
proof (induction segs)
  case Nil
  then show ?case by simp
next
  case (Cons seg segs)
  show ?case
  proof (cases "seg = []")
    case True
    with Cons show ?thesis by simp
  next
    case False
    with Cons.prems have l: "length (strings_Split seg (CHR ''='')) = 2"
      by (simp add: Let_def split: if_splits)
    with False Cons.prems have "klogv2_Set_loop segs = None"
      by (simp add: Let_def split: if_splits prod.splits option.splits)
    with Cons.IH strings_Split_length2 [OF l] show ?thesis by simp
  qed
qed

lemma ParseUint_loop_err_max:
  "snd (ParseUint_loop n s) = Some ErrRange \<Longrightarrow> fst (ParseUint_loop n s) = maxVal"
  by (induction n s rule: ParseUint_loop.induct) (auto simp: Let_def split: if_splits)

lemma ParseUint_loop_ok:
  "ParseUint_loop n s = (u, None) \<Longrightarrow>
     list_all is_digit s \<and> u = foldl (\<lambda>n c. n * 10 + digit_val c) n s \<and> u \<le> max n maxVal"
proof (induction n s rule: ParseUint_loop.induct)
  case (1 n)
  then show ?case by simp
next
  case (2 n c cs)
  let ?n1 = "n * 10 + digit_val c"
  from "2.prems" have d: "is_digit c" and c: "\<not> cutoff \<le> n"
    by (auto split: if_splits)
  from c have n10: "n * 10 < 2 ^ 64" by (simp add: cutoff_def)
  have dv: "digit_val c < 10" using d by (auto simp: is_digit_def digit_val_def)
  have lt: "?n1 < 2 ^ 64"
  proof (rule ccontr)
    assume "\<not> ?n1 < 2 ^ 64"
    then have ge: "2 ^ 64 \<le> ?n1" by simp
    from c have "?n1 < 2 * 2 ^ 64" using dv unfolding cutoff_def by simp
    with ge have m: "?n1 mod 2 ^ 64 = ?n1 - 2 ^ 64"
      by (simp add: mod_if)
    from ge dv have "?n1 - 2 ^ 64 < n * 10" by simp
    with m have "(n * 10 + digit_val c) mod 2 ^ 64 < n * 10" by simp
    with "2.prems" d c n10 show False by (simp add: Let_def)
  qed
  from "2.prems" d c n10 lt have le: "?n1 \<le> maxVal" and r: "ParseUint_loop ?n1 cs = (u, None)"
    by (auto simp: Let_def split: if_splits)
  have n10': "(n * 10) mod 2 ^ 64 = n * 10" and n1': "(n * 10 + digit_val c) mod 2 ^ 64 = ?n1"
    using n10 lt by simp_all
  have "list_all is_digit cs \<and> u = foldl (\<lambda>n c. n * 10 + digit_val c) ?n1 cs \<and> u \<le> max ?n1 maxVal"
    using "2.IH" [OF _ _ refl refl] d c le r n10 lt by (simp add: not_less)
  with d le show ?case by (auto simp: max_def)
qed

lemma ParseInt_ok_int32_text:
  assumes "snd (ParseInt t) = None"
  shows "int32_text t"
proof -
  from assms have t: "t \<noteq> []" by (auto simp: ParseInt_def)
  let ?neg = "hd t = CHR ''-''"
  let ?body = "if hd t = CHR ''+'' \<or> hd t = CHR ''-'' then tl t else t"
  obtain un err where u: "ParseUint ?body = (un, err)" by (cases "ParseUint ?body") auto
  from assms t u have e1: "err \<noteq> Some ErrSyntax"
    and r1: "\<not> (\<not> ?neg \<and> 2 ^ 31 \<le> un)" and r2: "\<not> (?neg \<and> 2 ^ 31 < un)"
    by (auto simp: ParseInt_def Let_def split: if_splits)
  have b: "?body \<noteq> []" using u e1 by (auto simp: ParseUint_def split: if_splits)
  then have l: "ParseUint_loop 0 ?body = (un, err)" using u by (simp add: ParseUint_def)
  have "err \<noteq> Some ErrRange"
  proof
    assume "err = Some ErrRange"
    with ParseUint_loop_err_max [of 0 ?body] l have "un = maxVal" by simp
    with r1 r2 show False by (auto simp: maxVal_def)
  qed
  with e1 have "err = None" by (cases err) (auto, metis num_error.exhaust)
  with l ParseUint_loop_ok [of 0 ?body un]
  have "list_all is_digit ?body" and "un = decimal_value ?body"
    by (simp_all add: decimal_value_def)
  with b t r1 r2 show ?thesis
    by (auto simp: int32_text_def Let_def not_le not_less)
qed

lemma klogv2_accepts_pair:
  "klogv2_Set_loop segs = None \<Longrightarrow>
     \<forall>seg \<in> set segs. seg \<noteq> [] \<longrightarrow> length (strings_Split seg (CHR ''='')) = 2"
proof (induction segs)
  case Nil
  then show ?case by simp
next
  case (Cons seg segs)
  show ?case
  proof (cases "seg = []")
    case True
    with Cons show ?thesis by simp
  next
    case False
    with Cons.prems have l: "length (strings_Split seg (CHR ''='')) = 2"
      by (simp add: Let_def split: if_splits)
    with False Cons.prems have "klogv2_Set_loop segs = None"
      by (simp add: Let_def split: if_splits prod.splits option.splits)
    with Cons.IH l show ?thesis by simp
  qed
qed

lemma klogv2_Set_loop_append:
  "klogv2_Set_loop (xs @ ys) = (case klogv2_Set_loop xs of Some e \<Rightarrow> Some e | None \<Rightarrow> klogv2_Set_loop ys)"
  by (induction xs) (simp_all add: Let_def split: prod.splits option.splits)

lemma klogv2_Set_loop_Split_Join:
  assumes "\<forall>s \<in> set segs. CHR '','' \<notin> set s"
  shows "klogv2_Set_loop (strings_Split (strings_Join segs (CHR '','')) (CHR '','')) = klogv2_Set_loop segs"
proof (cases "segs = []")
  case True
  then show ?thesis by simp
next
  case False
  with assms show ?thesis by (simp add: strings_Split_Join)
qed

lemma strings_Split_pair:
  assumes "length (strings_Split (p @ sep # t) sep) = 2"
  shows "sep \<notin> set p \<and> sep \<notin> set t \<and> strings_Split (p @ sep # t) sep = [p, t]"
proof -
  from assms have "filter (\<lambda>c. c = sep) p = [] \<and> filter (\<lambda>c. c = sep) t = []"
    by (simp add: strings_Split_length)
  then have f: "sep \<notin> set p" "sep \<notin> set t" by (auto simp: filter_empty_conv)
  then show ?thesis by (simp add: strings_Split_append strings_Split_free)
qed

lemma klogv2_segment_cases:
  assumes "klogv2_Set_loop ((p @ CHR ''='' # t) # segs) = None"
  shows "CHR ''='' \<notin> set p \<and> CHR ''='' \<notin> set t \<and> p \<noteq> [] \<and> t \<noteq> []
       \<and> snd (ParseInt t) = None \<and> 0 \<le> fst (ParseInt t) \<and> klogv2_Set_loop segs = None"
proof -
  let ?pl = "strings_Split (p @ CHR ''='' # t) (CHR ''='')"
  from assms have l: "length ?pl = 2" by (simp add: Let_def split: if_splits)
  from strings_Split_pair [OF l] have f: "CHR ''='' \<notin> set p" "CHR ''='' \<notin> set t" "?pl = [p, t]"
    by simp_all
  from assms f(3) show ?thesis using f(1,2)
    by (auto simp: Let_def split: if_splits prod.splits option.splits)
qed

lemma klogv2_segment_malformed:
  assumes "\<not> int32_text t"
  shows "klogv2_Set_loop ((p @ CHR ''='' # t) # segs) \<noteq> None"
proof
  assume "klogv2_Set_loop ((p @ CHR ''='' # t) # segs) = None"
  from klogv2_segment_cases [OF this] have "snd (ParseInt t) = None" by simp
  from ParseInt_ok_int32_text [OF this] assms show False by simp
qed


lemma klogv2_segment_zero:
  assumes "p \<noteq> []" and "CHR ''='' \<notin> set p"
  shows "klogv2_Set_loop ((p @ ''=0'') # segs) = klogv2_Set_loop segs"
proof -
  have "strings_Split (p @ CHR ''='' # ''0'') (CHR ''='') = [p, ''0'']"
    using assms(2) by (simp add: strings_Split_append)
  with assms(1) ParseInt_zero show ?thesis by (simp add: Let_def)
qed

lemma klogv2_rejects_piece:
  assumes "\<forall>s \<in> set (xs @ ys). CHR '','' \<notin> set s" and "CHR '','' \<notin> set seg"
    and "\<And>segs. klogv2_Set_loop (seg # segs) \<noteq> None"
  shows "inner_klog (strings_Join (xs @ [seg] @ ys) (CHR '','')) \<noteq> None"
proof -
  have "inner_klog (strings_Join (xs @ [seg] @ ys) (CHR '','')) = klogv2_Set_loop (xs @ [seg] @ ys)"
    unfolding inner_klog_def using assms(1,2) by (intro klogv2_Set_loop_Split_Join) auto
  also have "\<dots> \<noteq> None"
    using assms(3) [of ys] by (simp add: klogv2_Set_loop_append del: klogv2_Set_loop.simps split: option.splits)
  finally show ?thesis .
qed

lemma Set_inner_klog_error:
  "inner_klog val \<noteq> None \<Longrightarrow> vmoduleValue_Set inner_klog val g = (Inr (inner_klog val), g)"
  by (auto simp: vmoduleValue_Set_def)

lemma Set_inner_klog_no_panic: "fst (vmoduleValue_Set inner_klog val g) = Inr (inner_klog val)"
proof (cases "inner_klog val")
  case None
  then have "\<forall>seg \<in> set (strings_Split val (CHR '','')). seg \<noteq> [] \<longrightarrow> CHR ''='' \<in> set seg"
    unfolding inner_klog_def by (rule klogv2_accepts_separator)
  from Set_loop_no_panic [OF this] obtain out
    where "Set_loop (strings_Split val (CHR '','')) [] = Inr out" by blast
  with None show ?thesis by (simp add: vmoduleValue_Set_def)
next
  case (Some err)
  then show ?thesis by (simp add: vmoduleValue_Set_def)
qed



lemma inner_klog_sample_ok: "inner_klog ''recordio=2,file=1,gfs*=3'' = None"
  by (simp add: inner_klog_def parse_defs)


section \<open>The claims\<close>

text \<open>
  C1 (as amended). \<open>Set\<close> as \<open>InitFlags\<close> builds it, around the \<open>vmodule\<close> flag of
  klog/v2, does not panic on any string: it returns exactly what the wrapped flag value
  returned, and on a string that flag accepts every non-empty piece between commas
  splits on \<open>=\<close> into two elements, so \<open>patLev[1]\<close> is in bounds. Around any other flag
  value, \<open>Set\<close> returns what that returned on every string whose non-empty pieces each
  have an \<open>=\<close>.
\<close>

theorem Set_completes:
  "fst (vmoduleValue_Set inner_klog val g) = Inr (inner_klog val)
   \<and> (inner_klog val = None \<longrightarrow>
        (\<forall>seg \<in> set (strings_Split val (CHR '','')).
            seg \<noteq> [] \<longrightarrow> length (strings_Split seg (CHR ''='')) = 2))
   \<and> ((\<forall>seg \<in> set (strings_Split val (CHR '','')). seg \<noteq> [] \<longrightarrow> CHR ''='' \<in> set seg) \<longrightarrow>
        fst (vmoduleValue_Set inner val g) = Inr (inner val))"
proof (intro conjI impI)
  show "fst (vmoduleValue_Set inner_klog val g) = Inr (inner_klog val)"
    by (rule Set_inner_klog_no_panic)
next
  assume "inner_klog val = None"
  then show "\<forall>seg \<in> set (strings_Split val (CHR '','')).
      seg \<noteq> [] \<longrightarrow> length (strings_Split seg (CHR ''='')) = 2"
    unfolding inner_klog_def by (rule klogv2_accepts_pair)
next
  assume a: "\<forall>seg \<in> set (strings_Split val (CHR '','')). seg \<noteq> [] \<longrightarrow> CHR ''='' \<in> set seg"
  show "fst (vmoduleValue_Set inner val g) = Inr (inner val)"
  proof (cases "inner val")
    case None
    from Set_loop_no_panic [OF a] obtain out
      where "Set_loop (strings_Split val (CHR '','')) [] = Inr out" by blast
    with None show ?thesis by (simp add: vmoduleValue_Set_def)
  next
    case (Some err)
    then show ?thesis by (simp add: vmoduleValue_Set_def)
  qed
qed

theorem Set_completes_witness:
  "inner_klog ''recordio=2,file=1,gfs*=3'' = None
   \<and> fst (vmoduleValue_Set inner_klog ''recordio=2,file=1,gfs*=3'' global_init) = Inr None
   \<and> length (strings_Split ''gfs*=3'' (CHR ''='')) = 2
   \<and> fst (vmoduleValue_Set inner_rejects ''recordio=2,file=1,gfs*=3'' global_init)
       = Inr (Some ''syntax error: expect comma-separated list of filename=N'')"
proof -
  note t = Set_completes [of "''recordio=2,file=1,gfs*=3''" global_init inner_rejects]
  from t have "fst (vmoduleValue_Set inner_klog ''recordio=2,file=1,gfs*=3'' global_init)
      = Inr (inner_klog ''recordio=2,file=1,gfs*=3'')" by (rule conjunct1)
  moreover from t have "fst (vmoduleValue_Set inner_rejects ''recordio=2,file=1,gfs*=3'' global_init)
      = Inr (inner_rejects ''recordio=2,file=1,gfs*=3'')" by simp
  ultimately show ?thesis
    using inner_klog_sample_ok by (simp add: inner_rejects_def)
qed

text \<open>
  C1 as stated fails: on the flag value \<open>foo\<close> an error is signalled and the piece is
  not skipped. The wrapped \<open>vmodule\<close> flag refuses the string and \<open>Set\<close> returns its
  error, leaving the filter and the cache as they were.
\<close>

theorem Set_error_without_separator:
  "vmoduleValue_Set inner_klog ''foo'' global_init
     = (Inr (Some ''syntax error: expect comma-separated list of filename=N''), global_init)"
  by (simp add: vmoduleValue_Set_def inner_klog_def errVmoduleSyntax_def Let_def)

text \<open>
  C2. In every reachable state each cache entry holds the level the current filter gives
  the entry's call site (that of the first rule matching its trimmed file name, 0 when
  none matches). Hence after \<open>vmoduleGet\<close> at a call site and a \<open>Set\<close> that returns
  \<open>nil\<close>, \<open>vmoduleGet\<close> at the same call site returns the level the new filter
  gives, whatever the cache held before.
\<close>

theorem cache_agrees_with_filter:
  assumes "reachable fileLine g"
  shows "(\<forall>cache pc v. vModuleCache g = Some cache \<and> cache pc = Some v \<longrightarrow>
            (\<exists>file0. fileLine pc = Some file0 \<and> v = resolved_level (vModuleFilter g) file0))
         \<and> (\<forall>pc file0 inner newSpec g2.
              fileLine pc = Some file0
              \<and> vmoduleValue_Set inner newSpec (snd (vmoduleGet fileLine pc g)) = (Inr None, g2) \<longrightarrow>
              (\<exists>filt. Set_loop (strings_Split newSpec (CHR '','')) [] = Inr filt
                 \<and> vModuleFilter g2 = filt
                 \<and> fst (vmoduleGet fileLine pc g2) = Inr (resolved_level filt file0)))"
proof (intro conjI allI impI)
  fix cache pc v
  assume "vModuleCache g = Some cache \<and> cache pc = Some v"
  with reachable_consistent [OF assms]
  show "\<exists>file0. fileLine pc = Some file0 \<and> v = resolved_level (vModuleFilter g) file0"
    by (auto simp: cache_consistent_def)
next
  fix pc file0 inner newSpec g2
  assume a: "fileLine pc = Some file0
     \<and> vmoduleValue_Set inner newSpec (snd (vmoduleGet fileLine pc g)) = (Inr None, g2)"
  let ?g1 = "snd (vmoduleGet fileLine pc g)"
  from a Set_success [of inner newSpec ?g1 g2] obtain filt
    where f: "Set_loop (strings_Split newSpec (CHR '','')) [] = Inr filt"
      and g2: "g2 = ?g1\<lparr>vModuleFilter := filt, vModuleCache := Some Map.empty\<rparr>" by blast
  have "vmoduleGet fileLine pc g2
          = (Inr (resolved_level filt file0),
             g2\<lparr>vModuleCache := Some (Map.empty(pc \<mapsto> resolved_level filt file0))\<rparr>)"
    using vmoduleGet_miss [of g2 Map.empty pc fileLine file0] a g2 by simp
  with f g2 show "\<exists>filt. Set_loop (strings_Split newSpec (CHR '','')) [] = Inr filt
                 \<and> vModuleFilter g2 = filt
                 \<and> fst (vmoduleGet fileLine pc g2) = Inr (resolved_level filt file0)"
    by simp
qed

theorem cache_agrees_with_filter_witness:
  "reachable fileLine_abc (snd (vmoduleValue_Set inner_accepts ''a*=1,abc=5'' global_init))
   \<and> fst (vmoduleGet fileLine_abc 7 (snd (vmoduleValue_Set inner_accepts ''a*=1,abc=5'' global_init)))
       = Inr 1
   \<and> fst (vmoduleGet fileLine_abc 7
        (snd (vmoduleValue_Set inner_accepts ''abc=5''
           (snd (vmoduleGet fileLine_abc 7
              (snd (vmoduleValue_Set inner_accepts ''a*=1,abc=5'' global_init)))))))
       = Inr 5"
proof -
  let ?g = "snd (vmoduleValue_Set inner_accepts ''a*=1,abc=5'' global_init)"
  have r: "reachable fileLine_abc ?g"
    by (rule reachable_Set) (rule reachable_init)
  have g: "?g = \<lparr>vModuleFilter = [\<lparr>pattern = ''a*'', literal = False, level = 1\<rparr>,
                     \<lparr>pattern = ''abc'', literal = True, level = 5\<rparr>],
                   vModuleCache = Some Map.empty\<rparr>"
    unfolding vmoduleValue_Set_def inner_accepts_def Set_loop_sample
    by (simp add: global_init_def)
  have one: "vmoduleGet fileLine_abc 7 ?g = (Inr 1, ?g\<lparr>vModuleCache := Some [7 \<mapsto> 1]\<rparr>)"
    unfolding g
    by (simp add: vmoduleGet_def vmoduleGet_store_def fileLine_abc_def vmoduleGet_file_sample
          match_def Match_sample)
  have s: "vmoduleValue_Set inner_accepts ''abc=5'' (snd (vmoduleGet fileLine_abc 7 ?g))
             = (Inr None, \<lparr>vModuleFilter = [\<lparr>pattern = ''abc'', literal = True, level = 5\<rparr>],
                           vModuleCache = Some Map.empty\<rparr>)"
    unfolding one unfolding g vmoduleValue_Set_def inner_accepts_def Set_loop_sample2
    by simp
  from cache_agrees_with_filter [OF r] s one
  have "fst (vmoduleGet fileLine_abc 7
               \<lparr>vModuleFilter = [\<lparr>pattern = ''abc'', literal = True, level = 5\<rparr>],
                 vModuleCache = Some Map.empty\<rparr>)
          = Inr (resolved_level [\<lparr>pattern = ''abc'', literal = True, level = 5\<rparr>]
                   ''/go/src/pkg/abc.go'')"
    by (fastforce simp: fileLine_abc_def Set_loop_sample2)
  then show ?thesis using r one s
    by (simp add: resolved_level_def vmoduleGet_file_sample match_def)
qed

text \<open>
  C3. In every reachable state \<open>vmoduleGet\<close> returns the level of the first rule of the
  filter, in the order of the flag value, that matches the call site's file name,
  whatever the levels of the rules after it. The example is \<open>a*=1,abc=5\<close> with the file
  name \<open>abc\<close>: both rules match and the level is 1.
\<close>

theorem first_match_wins:
  assumes "reachable fileLine g" and "fileLine pc = Some file0"
    and "i < length (vModuleFilter g)"
    and "match (vModuleFilter g ! i) (vmoduleGet_file file0)"
    and "\<forall>j<i. \<not> match (vModuleFilter g ! j) (vmoduleGet_file file0)"
  shows "fst (vmoduleGet fileLine pc g) = Inr (level (vModuleFilter g ! i))"
proof -
  from assms(3) have "vModuleFilter g \<noteq> []" by auto
  with assms(1) have c: "vModuleCache g \<noteq> None" by (rule reachable_cache)
  have "resolved_level (vModuleFilter g) file0 = level (vModuleFilter g ! i)"
    using vmoduleGet_loop_first [OF assms(3,4,5)] by (simp add: resolved_level_def)
  with vmoduleGet_consistent [OF reachable_consistent [OF assms(1)] c assms(2)]
  show ?thesis by simp
qed

theorem first_match_wins_witness:
  "reachable fileLine_abc (snd (vmoduleValue_Set inner_accepts ''a*=1,abc=5'' global_init))
   \<and> vModuleFilter (snd (vmoduleValue_Set inner_accepts ''a*=1,abc=5'' global_init))
       = [\<lparr>pattern = ''a*'', literal = False, level = 1\<rparr>,
          \<lparr>pattern = ''abc'', literal = True, level = 5\<rparr>]
   \<and> vmoduleGet_file ''/go/src/pkg/abc.go'' = ''abc''
   \<and> match \<lparr>pattern = ''a*'', literal = False, level = 1\<rparr> ''abc''
   \<and> match \<lparr>pattern = ''abc'', literal = True, level = 5\<rparr> ''abc''
   \<and> fst (vmoduleGet fileLine_abc 7 (snd (vmoduleValue_Set inner_accepts ''a*=1,abc=5'' global_init)))
       = Inr 1"
proof -
  let ?g = "snd (vmoduleValue_Set inner_accepts ''a*=1,abc=5'' global_init)"
  have r: "reachable fileLine_abc ?g"
    by (rule reachable_Set) (rule reachable_init)
  have f: "vModuleFilter ?g = [\<lparr>pattern = ''a*'', literal = False, level = 1\<rparr>,
                               \<lparr>pattern = ''abc'', literal = True, level = 5\<rparr>]"
    unfolding vmoduleValue_Set_def inner_accepts_def Set_loop_sample by simp
  have m: "match \<lparr>pattern = ''a*'', literal = False, level = 1\<rparr> ''abc''"
    by (simp add: match_def Match_sample)
  have "fst (vmoduleGet fileLine_abc 7 ?g) = Inr (level (vModuleFilter ?g ! 0))"
    using first_match_wins [of fileLine_abc ?g 7 "''/go/src/pkg/abc.go''" 0] r f m
    by (simp add: fileLine_abc_def vmoduleGet_file_sample)
  with r f m show ?thesis by (simp add: vmoduleGet_file_sample match_def)
qed

text \<open>
  C4 (as amended). Take a flag value with a piece \<open>p=t\<close> whose level text \<open>t\<close> is not
  a decimal integer of 32 bits (an optional sign, then one or more decimal digits,
  denoting a number from \<open>-2147483648\<close> to \<open>2147483647\<close>): malformed text and numeric
  text out of that range alike. \<open>Set\<close>, around the \<open>vmodule\<close> flag of klog/v2, returns
  that flag's error and leaves the filter and the cache as they were; the level is not
  read as 0. A piece \<open>p=0\<close>, with \<open>p\<close> non-empty and free of \<open>=\<close>, is inert: \<open>Set\<close>
  returns the same result and state as on the flag value without the piece.
\<close>

theorem malformed_level_rejected:
  assumes "\<forall>s \<in> set (xs @ ys). CHR '','' \<notin> set s"
    and "CHR '','' \<notin> set p" and "CHR '','' \<notin> set t"
  shows "(\<not> int32_text t \<longrightarrow>
            inner_klog (strings_Join (xs @ [p @ ''='' @ t] @ ys) (CHR '','')) \<noteq> None
          \<and> vmoduleValue_Set inner_klog (strings_Join (xs @ [p @ ''='' @ t] @ ys) (CHR '','')) g
              = (Inr (inner_klog (strings_Join (xs @ [p @ ''='' @ t] @ ys) (CHR '',''))), g))
     \<and> (p \<noteq> [] \<and> CHR ''='' \<notin> set p \<longrightarrow>
          vmoduleValue_Set inner_klog (strings_Join (xs @ [p @ ''=0''] @ ys) (CHR '','')) g
            = vmoduleValue_Set inner_klog (strings_Join (xs @ ys) (CHR '','')) g)"
proof (intro conjI impI)
  let ?val = "strings_Join (xs @ [p @ ''='' @ t] @ ys) (CHR '','')"
  assume m: "\<not> int32_text t"
  have c: "CHR '','' \<notin> set (p @ CHR ''='' # t)" using assms(2,3) by simp
  have "inner_klog (strings_Join (xs @ [p @ CHR ''='' # t] @ ys) (CHR '','')) \<noteq> None"
    using assms(1) c klogv2_segment_malformed [OF m] by (rule klogv2_rejects_piece)
  then show r: "inner_klog ?val \<noteq> None" by simp
  then show "vmoduleValue_Set inner_klog ?val g = (Inr (inner_klog ?val), g)"
    by (rule Set_inner_klog_error)
next
  let ?v0 = "strings_Join (xs @ [p @ ''=0''] @ ys) (CHR '','')"
  let ?v1 = "strings_Join (xs @ ys) (CHR '','')"
  assume p: "p \<noteq> [] \<and> CHR ''='' \<notin> set p"
  have c0: "\<forall>s \<in> set (xs @ [p @ ''=0''] @ ys). CHR '','' \<notin> set s"
    using assms(1,2) by auto
  have "klogv2_Set_loop (xs @ [p @ ''=0''] @ ys) = klogv2_Set_loop (xs @ ys)"
    using klogv2_segment_zero [OF conjunct1 [OF p] conjunct2 [OF p], of ys]
    by (simp add: klogv2_Set_loop_append del: klogv2_Set_loop.simps split: option.splits)
  then have k: "inner_klog ?v0 = inner_klog ?v1"
    unfolding inner_klog_def
    by (simp only: klogv2_Set_loop_Split_Join [OF c0] klogv2_Set_loop_Split_Join [OF assms(1)])
  have "Set_loop (xs @ [p @ ''=0''] @ ys) [] = Set_loop (xs @ ys) []"
    using zero_segment_skipped [OF conjunct2 [OF p], of ys]
    by (simp add: Set_loop_append del: Set_loop.simps split: sum.splits)
  then have s: "Set_loop (strings_Split ?v0 (CHR '','')) [] = Set_loop (strings_Split ?v1 (CHR '','')) []"
    by (simp only: Set_loop_Split_Join [OF c0] Set_loop_Split_Join [OF assms(1)])
  show "vmoduleValue_Set inner_klog ?v0 g = vmoduleValue_Set inner_klog ?v1 g"
    unfolding vmoduleValue_Set_def k s ..
qed

theorem malformed_level_rejected_witness:
  "\<not> int32_text ''bar''
   \<and> vmoduleValue_Set inner_klog ''gopher*=3,foo=bar'' global_init
       = (Inr (Some ''syntax error: expect comma-separated list of filename=N''), global_init)
   \<and> vmoduleValue_Set inner_klog ''gopher*=3,foo=0'' global_init
       = vmoduleValue_Set inner_klog ''gopher*=3'' global_init"
proof -
  have m: "\<not> int32_text ''bar''"
    by (simp add: int32_text_def is_digit_def)
  have e: "inner_klog ''gopher*=3,foo=bar'' = Some ''syntax error: expect comma-separated list of filename=N''"
    by (simp add: inner_klog_def errVmoduleSyntax_def parse_defs)
  from malformed_level_rejected [where xs = "[''gopher*=3'']" and ys = "[]" and p = "''foo''"
      and t = "''bar''" and g = global_init] m
  have "vmoduleValue_Set inner_klog ''gopher*=3,foo=bar'' global_init
          = (Inr (inner_klog ''gopher*=3,foo=bar''), global_init)
      \<and> vmoduleValue_Set inner_klog ''gopher*=3,foo=0'' global_init
          = vmoduleValue_Set inner_klog ''gopher*=3'' global_init"
    by simp
  with m e show ?thesis by simp
qed

text \<open>
  C4 as stated fails: on \<open>foo=bar\<close> an error is raised, while \<open>foo=0\<close> is accepted,
  and so the two are not equivalent; numeric text out of the 32-bit range, above or
  below, is refused in the same way.
\<close>

theorem malformed_level_is_error:
  "fst (vmoduleValue_Set inner_klog ''foo=bar'' global_init)
     = Inr (Some ''syntax error: expect comma-separated list of filename=N'')
   \<and> fst (vmoduleValue_Set inner_klog ''foo=0'' global_init) = Inr None
   \<and> fst (vmoduleValue_Set inner_klog ''foo=2147483648'' global_init)
     = Inr (Some ''syntax error: expect comma-separated list of filename=N'')
   \<and> fst (vmoduleValue_Set inner_klog ''foo=-2147483649'' global_init)
     = Inr (Some ''syntax error: expect comma-separated list of filename=N'')"
  by (simp add: vmoduleValue_Set_def inner_klog_def errVmoduleSyntax_def parse_defs)



text \<open>
  C7. The name matched against the filter is the file without a final \<open>.go\<close> and
  without everything up to its last \<open>/\<close>: for \<open>b\<close> free of \<open>/\<close>, the files
  \<open>d/b.go\<close> and \<open>b.go\<close> give \<open>b\<close>, and so do \<open>d/b\<close> and \<open>b\<close> when \<open>b\<close> does not end
  in \<open>.go\<close>. On a cache miss \<open>vmoduleGet\<close> returns the level of the first rule matching
  that name.
\<close>

theorem vmoduleGet_file_base:
  assumes "CHR ''/'' \<notin> set b"
  shows "vmoduleGet_file (d @ ''/'' @ b @ ''.go'') = b
       \<and> vmoduleGet_file (b @ ''.go'') = b
       \<and> (\<not> strings_HasSuffix b ''.go'' \<longrightarrow>
            vmoduleGet_file (d @ ''/'' @ b) = b \<and> vmoduleGet_file b = b)
       \<and> (vModuleCache g = Some cache \<and> cache pc = None
            \<and> fileLine pc = Some (d @ ''/'' @ b @ ''.go'') \<longrightarrow>
            fst (vmoduleGet fileLine pc g)
              = Inr (case vmoduleGet_loop (vModuleFilter g) b of Some v \<Rightarrow> v | None \<Rightarrow> 0))"
proof -
  note f = vmoduleGet_file_strip [OF assms]
  have "fst (vmoduleGet fileLine pc g)
          = Inr (case vmoduleGet_loop (vModuleFilter g) b of Some v \<Rightarrow> v | None \<Rightarrow> 0)"
    if "vModuleCache g = Some cache" "cache pc = None"
      "fileLine pc = Some (d @ ''/'' @ b @ ''.go'')"
    using vmoduleGet_miss [of g cache pc fileLine "d @ ''/'' @ b @ ''.go''"] that f(1) [of d]
    by (simp add: resolved_level_def)
  with f show ?thesis by blast
qed

theorem vmoduleGet_file_base_witness:
  "vmoduleGet_file ''/go/src/pkg/abc.go'' = ''abc''
   \<and> vmoduleGet_file ''abc.go'' = ''abc''
   \<and> vmoduleGet_file ''/go/src/pkg/abc'' = ''abc''
   \<and> vmoduleGet_file ''abc'' = ''abc''
   \<and> fst (vmoduleGet fileLine_abc 7
        \<lparr>vModuleFilter = [\<lparr>pattern = ''abc'', literal = True, level = 5\<rparr>],
          vModuleCache = Some Map.empty\<rparr>) = Inr 5"
proof -
  have s: "\<not> strings_HasSuffix ''abc'' ''.go''" by (simp add: strings_HasSuffix_def)
  have c: "CHR ''/'' \<notin> set ''abc''" by simp
  from vmoduleGet_file_base [OF c, where d = "''/go/src/pkg''" and cache = Map.empty
      and pc = 7 and fileLine = fileLine_abc
      and g = "\<lparr>vModuleFilter = [\<lparr>pattern = ''abc'', literal = True, level = 5\<rparr>],
                 vModuleCache = Some Map.empty\<rparr>"] s
  show ?thesis by (simp add: fileLine_abc_def match_def)
qed

text \<open>
  C8. \<open>Set\<close> with the same string twice in succession gives the same result and leaves
  the same state as \<open>Set\<close> once, so every call site resolves alike after either.
\<close>

theorem Set_idempotent:
  "vmoduleValue_Set inner val (snd (vmoduleValue_Set inner val g)) = vmoduleValue_Set inner val g
   \<and> vmoduleGet fileLine pc (snd (vmoduleValue_Set inner val (snd (vmoduleValue_Set inner val g))))
       = vmoduleGet fileLine pc (snd (vmoduleValue_Set inner val g))"
  by (simp add: vmoduleValue_Set_def split: option.splits sum.splits)

text \<open>
  C9. When the wrapped flag value returns an error, \<open>Set\<close> returns that error and
  leaves the filter and the cache as they were.
\<close>

theorem Set_inner_error:
  "inner val = Some err \<Longrightarrow> vmoduleValue_Set inner val g = (Inr (Some err), g)"
  by (simp add: vmoduleValue_Set_def)

theorem Set_inner_error_witness:
  "vmoduleValue_Set inner_rejects ''foo=2'' global_init
     = (Inr (Some ''syntax error: expect comma-separated list of filename=N''), global_init)"
  using Set_inner_error [of inner_rejects "''foo=2''" _ global_init]
  by (simp add: inner_rejects_def)




end
